theory Spec2Isabelle
  imports Complex_Main "HOL-Library.Sublist" "HOL-Library.Char_ord"
    "HOL-Library.List_Lexorder" "HOL-Library.Multiset" "HOL-Library.Extended_Nat"
begin

section \<open>JavaScript strings and the regular expressions of the engine\<close>

text \<open>
  A JavaScript string is modelled as a \<^typ>\<open>string\<close>: a list of code units, here
  restricted to the 8-bit range. \<open>s.indexOf(pat)\<close> returns the first index at which
  \<open>pat\<close> occurs, or \<open>-1\<close>; the model returns \<open>None\<close> for \<open>-1\<close>.
  \<open>s.includes(pat)\<close> is \<open>indexOf s pat \<noteq> None\<close>, \<open>s.substring(0, n)\<close> is
  \<open>take n s\<close> and \<open>s.substring(n)\<close> is \<open>drop n s\<close>.
\<close>

fun indexOf :: "string \<Rightarrow> string \<Rightarrow> nat option" where
  "indexOf [] pat = (if pat = [] then Some 0 else None)"
| "indexOf (c # cs) pat =
     (if prefix pat (c # cs) then Some 0 else map_option Suc (indexOf cs pat))"

definition dquote :: char where
  "dquote = CHR 0x22"

definition is_digit :: "char \<Rightarrow> bool" where
  "is_digit c = (c \<in> set ''0123456789'')"

text \<open>The class \<open>\s\<close> on 8-bit code units: tab, line feed, vertical tab, form feed,
  carriage return, space and the no-break space.\<close>

definition is_space :: "char \<Rightarrow> bool" where
  "is_space c = (c \<in> {CHR 0x09, CHR 0x0A, CHR 0x0B, CHR 0x0C, CHR 0x0D, CHR 0x20, CHR 0xA0})"

text \<open>
  An unanchored \<open>match\<close> tries the pattern at every start position from the left and
  returns the first success; \<open>search m\<close> does so for an anchored matcher \<open>m\<close>.
\<close>

fun search :: "(string \<Rightarrow> 'a option) \<Rightarrow> string \<Rightarrow> 'a option" where
  "search m [] = m []"
| "search m (c # cs) = (case m (c # cs) of Some v \<Rightarrow> Some v | None \<Rightarrow> search m cs)"

text \<open>A literal at the current position; the result is the text after it.\<close>

definition lit :: "string \<Rightarrow> string \<Rightarrow> string option" where
  "lit p s = (if prefix p s then Some (drop (length p) s) else None)"

text \<open>
  The tail \<open>([^"]+)"\<close> of an attribute pattern: a greedy, non-empty run of characters
  other than the double quote, followed by a double quote. Backtracking cannot help (a
  shorter run is followed by a non-quote), so the match is the whole run or nothing.
\<close>

definition quoted_value :: "string \<Rightarrow> string option" where
  "quoted_value s =
     (let v = takeWhile (\<lambda>c. c \<noteq> dquote) s
      in if v \<noteq> [] \<and> prefix [dquote] (drop (length v) s) then Some v else None)"

text \<open>The tail \<open>(\d+)"\<close>: a non-empty run of digits followed by a double quote.\<close>

definition quoted_digits :: "string \<Rightarrow> string option" where
  "quoted_digits s =
     (let v = takeWhile is_digit s
      in if v \<noteq> [] \<and> prefix [dquote] (drop (length v) s) then Some v else None)"

text \<open>\<open>/NAME V="([^"]+)"/\<close> and \<open>/NAME V="(\d+)"/\<close>, the name given with its \<open> V=\<close>.\<close>

definition match_attr :: "string \<Rightarrow> string \<Rightarrow> string option" where
  "match_attr name s =
     search (\<lambda>t. case lit (name @ [dquote]) t of None \<Rightarrow> None | Some r \<Rightarrow> quoted_value r) s"

definition match_digits :: "string \<Rightarrow> string \<Rightarrow> string option" where
  "match_digits name s =
     search (\<lambda>t. case lit (name @ [dquote]) t of None \<Rightarrow> None | Some r \<Rightarrow> quoted_digits r) s"

text \<open>
  \<open>/<OBS\.observation_id V="CODE"[^/]*\/>\s*<OBS\.value V="([^"]+)"/\<close>: after the
  identifier with the given code, everything up to the first slash, then \<open>/>\<close>, white
  space, and the value attribute.
\<close>

definition obs_value_at :: "string \<Rightarrow> string \<Rightarrow> string option" where
  "obs_value_at code t =
     (case lit (''<OBS.observation_id V='' @ [dquote] @ code @ [dquote]) t of
        None \<Rightarrow> None
      | Some r1 \<Rightarrow>
          (case lit ''/>'' (dropWhile (\<lambda>c. c \<noteq> CHR ''/'') r1) of
             None \<Rightarrow> None
           | Some r2 \<Rightarrow>
               (case lit (''<OBS.value V='' @ [dquote]) (dropWhile is_space r2) of
                  None \<Rightarrow> None
                | Some r3 \<Rightarrow> quoted_value r3)))"

definition match_obs_value :: "string \<Rightarrow> string \<Rightarrow> string option" where
  "match_obs_value code s = search (obs_value_at code) s"

text \<open>
  The lazy group \<open>([\s\S]*?)\<close> followed by a literal: the text up to the first
  occurrence of the literal, and the text after it.
\<close>

fun until_lit :: "string \<Rightarrow> string \<Rightarrow> (string \<times> string) option" where
  "until_lit cl [] = (if cl = [] then Some ([], []) else None)"
| "until_lit cl (c # cs) =
     (if prefix cl (c # cs) then Some ([], drop (length cl) (c # cs))
      else map_option (\<lambda>(v, r). (c # v, r)) (until_lit cl cs))"

text \<open>
  The loop \<open>while ((match = svcPattern.exec(xml)) !== null)\<close> over the global pattern
  \<open>/<SVC>([\s\S]*?)<\/SVC>/g\<close>: the bodies of the service groups, left to right, each
  search starting where the previous match ended.
\<close>

function svc_groups :: "string \<Rightarrow> string list" where
  "svc_groups xml =
     (case indexOf xml ''<SVC>'' of
        None \<Rightarrow> []
      | Some i \<Rightarrow>
          (case until_lit ''</SVC>'' (drop (i + 5) xml) of
             None \<Rightarrow> []
           | Some (svc, rest) \<Rightarrow> svc # svc_groups rest))"
  by pat_completeness auto
termination
proof (relation "measure length")
  show "wf (measure length)" by simp
next
  fix xml :: string and i x2 svc rest
  assume i: "indexOf xml ''<SVC>'' = Some i"
    and u: "until_lit ''</SVC>'' (drop (i + 5) xml) = Some x2"
    and x2: "(svc, rest) = x2"
  have le: "length r \<le> length s" if "until_lit cl s = Some (v, r)" for cl s v r
    using that by (induction s arbitrary: v) (auto split: if_splits)
  have "xml \<noteq> []" using i by auto
  moreover have "length rest \<le> length (drop (i + 5) xml)"
    using le u x2 by metis
  ultimately show "(rest, xml) \<in> measure length"
    by (cases xml) auto
qed


text \<open>
  A message described by its parts, for stating what the loop must find: each group is
  given by the text before its start tag and by its body, and \<open>tail\<close> is the text after
  the last group. \<open>no_group tail\<close> says that the tail holds no complete group: no start
  tag, or no end tag after the first start tag.
\<close>

fun groups_text :: "(string \<times> string) list \<Rightarrow> string \<Rightarrow> string" where
  "groups_text [] tail = tail"
| "groups_text (g # gs) tail =
     fst g @ ''<SVC>'' @ snd g @ ''</SVC>'' @ groups_text gs tail"

definition no_group :: "string \<Rightarrow> bool" where
  "no_group tail =
     (case indexOf tail ''<SVC>'' of
        None \<Rightarrow> True
      | Some i \<Rightarrow> indexOf (drop (i + 5) tail) ''</SVC>'' = None)"

section \<open>Readings and the observation extractor\<close>

text \<open>
  A reading as both applications store it. The numbers of JavaScript other than \<open>NaN\<close>
  are the values of a type \<open>'n\<close> with a zero and a linear order: the doubles, the two
  zeros taken as one and the infinities included. The built-ins of the language are
  parameters of the model: \<open>parseFloat\<close>, whose value \<open>None\<close> stands for \<open>NaN\<close>, and
  \<open>parseInt\<close>, which is only applied to strings of digits and returns a natural number
  or infinity.
\<close>

record 'n reading =
  timestamp :: string
  inr :: 'n
  pt_seconds :: 'n
  status :: "string option"

text \<open>The desktop application's observation object: it also carries a sequence
  number, first the device's (when the message has one), then the one the store assigns.
  Its status is the raw code of the message, when there is one.\<close>

record 'n obs = "'n reading" +
  sequence :: "enat option"

text \<open>The mobile application's \<open>INRReading\<close>; its status is always set.\<close>

record 'n INRReading = "'n reading" +
  reading_id :: string
  reading_notes :: "string option"
  syncedToHealth :: "bool option"

text \<open>
  One iteration of the loop of \<open>parseObservationsXml\<close> (desktop): the properties are
  set when their pattern matches, and the object is pushed only if
  \<open>obs.timestamp && obs.inr && obs.inr > 0 && obs.pt_seconds && obs.pt_seconds > 0\<close>.
  A property that was never set is \<open>undefined\<close> and falsy, the empty string is falsy,
  and so is the number zero.
\<close>

definition svc_timestamp :: "string \<Rightarrow> string option" where
  "svc_timestamp svc = match_attr ''<SVC.observation_dttm V='' svc"

definition svc_sequence :: "(string \<Rightarrow> enat) \<Rightarrow> string \<Rightarrow> enat option" where
  "svc_sequence parseInt svc = map_option parseInt (match_digits ''<SVC.sequence_nbr V='' svc)"

definition svc_status :: "string \<Rightarrow> string option" where
  "svc_status svc = match_attr ''<SVC.status_cd V='' svc"

definition svc_number :: "(string \<Rightarrow> 'n option) \<Rightarrow> string \<Rightarrow> string \<Rightarrow> 'n option" where
  "svc_number parseFloat code svc =
     (case match_obs_value code svc of None \<Rightarrow> None | Some v \<Rightarrow> parseFloat v)"

definition parse_svc ::
    "(string \<Rightarrow> enat) \<Rightarrow> (string \<Rightarrow> 'n::{zero,linorder} option) \<Rightarrow> string \<Rightarrow> 'n obs option" where
  "parse_svc parseInt parseFloat svc =
     (case (svc_timestamp svc, svc_number parseFloat ''34714-6'' svc,
            svc_number parseFloat ''5902-2'' svc) of
        (Some t, Some i, Some p) \<Rightarrow>
          if t \<noteq> [] \<and> i \<noteq> 0 \<and> 0 < i \<and> p \<noteq> 0 \<and> 0 < p
          then Some \<lparr>timestamp = t, inr = i, pt_seconds = p, status = svc_status svc,
                     sequence = svc_sequence parseInt svc\<rparr>
          else None
      | _ \<Rightarrow> None)"

definition parseObservationsXml ::
    "(string \<Rightarrow> enat) \<Rightarrow> (string \<Rightarrow> 'n::{zero,linorder} option) \<Rightarrow> string \<Rightarrow> 'n obs list" where
  "parseObservationsXml parseInt parseFloat xml =
     List.map_filter (parse_svc parseInt parseFloat) (svc_groups xml)"

text \<open>
  The mobile application's \<open>parseObservationsXml\<close>: the same patterns and the same
  validity check. The reading starts with an identifier (built from the clock and a
  random number: here \<open>newId k\<close> for the \<open>k\<close>-th group of the message) and the status
  \<open>NRM\<close>, which is replaced only by one of the four known codes.
\<close>

definition toUpperCase :: "string \<Rightarrow> string" where
  "toUpperCase s =
     map (\<lambda>c. if CHR ''a'' \<le> c \<and> c \<le> CHR ''z'' then char_of (of_char c - (32::nat)) else c) s"

definition normal_status :: "string option \<Rightarrow> string" where
  "normal_status m =
     (case m of
        None \<Rightarrow> ''NRM''
      | Some v \<Rightarrow>
          (let st = toUpperCase v
           in if st = ''NRM'' \<or> st = ''HI'' \<or> st = ''LO'' \<or> st = ''ERR'' then st else ''NRM''))"

definition parse_svc_ble ::
    "string \<Rightarrow> (string \<Rightarrow> 'n::{zero,linorder} option) \<Rightarrow> string \<Rightarrow> 'n INRReading option" where
  "parse_svc_ble new_id parseFloat svc =
     (case (svc_timestamp svc, svc_number parseFloat ''34714-6'' svc,
            svc_number parseFloat ''5902-2'' svc) of
        (Some t, Some i, Some p) \<Rightarrow>
          if t \<noteq> [] \<and> i \<noteq> 0 \<and> 0 < i \<and> p \<noteq> 0 \<and> 0 < p
          then Some \<lparr>timestamp = t, inr = i, pt_seconds = p,
                     status = Some (normal_status (svc_status svc)),
                     reading_id = new_id, reading_notes = None, syncedToHealth = None\<rparr>
          else None
      | _ \<Rightarrow> None)"

definition parseObservationsXml_ble ::
    "(nat \<Rightarrow> string) \<Rightarrow> (string \<Rightarrow> 'n::{zero,linorder} option) \<Rightarrow> string \<Rightarrow> 'n INRReading list" where
  "parseObservationsXml_ble newId parseFloat xml =
     List.map_filter (\<lambda>(k, svc). parse_svc_ble (newId k) parseFloat svc)
       (List.enumerate 0 (svc_groups xml))"

text \<open>
  The acceptance condition in the words of the specification: the timestamp is present,
  the primary value (code 34714-6) parses as a number greater than zero, and the
  secondary value (code 5902-2) parses as a number greater than zero. \<open>obs_of\<close> and
  \<open>INRReading_of\<close> are the records built from an accepted group.
\<close>

definition accepted :: "(string \<Rightarrow> 'n::{zero,linorder} option) \<Rightarrow> string \<Rightarrow> bool" where
  "accepted parseFloat svc =
     (svc_timestamp svc \<noteq> None
      \<and> (case svc_number parseFloat ''34714-6'' svc of None \<Rightarrow> False | Some v \<Rightarrow> 0 < v)
      \<and> (case svc_number parseFloat ''5902-2'' svc of None \<Rightarrow> False | Some v \<Rightarrow> 0 < v))"

definition obs_of :: "(string \<Rightarrow> enat) \<Rightarrow> (string \<Rightarrow> 'n option) \<Rightarrow> string \<Rightarrow> 'n obs" where
  "obs_of parseInt parseFloat svc =
     \<lparr>timestamp = the (svc_timestamp svc),
      inr = the (svc_number parseFloat ''34714-6'' svc),
      pt_seconds = the (svc_number parseFloat ''5902-2'' svc),
      status = svc_status svc,
      sequence = svc_sequence parseInt svc\<rparr>"


section \<open>The reconciliation store of the desktop application\<close>

text \<open>
  The content of the data file as \<open>JSON.parse\<close> returns it. Its property \<open>readings\<close> is
  an array of readings, or absent (or another falsy value), or some other value that is
  not an array. The file itself may be absent, or present with a content that cannot be
  read or parsed, or present with a parsed content.
\<close>

datatype 'n readings_field = Missing | NotArray | Readings "'n obs list"

record 'n data =
  device :: "(string \<times> string) option"
  lastSync :: "string option"
  totalReadings :: "nat option"
  readings :: "'n readings_field"

datatype 'n file_state = NoFile | Unreadable | FileContent "'n data"

text \<open>
  A write with \<open>fs.writeFileSync\<close> succeeds or throws. When it throws, the model does
  not say what is left in the file: it is an input (the old content when the file could
  not be opened, nothing readable when it was truncated or written in part).
\<close>

datatype 'n write_outcome = WriteOk | WriteFails "'n file_state"

datatype 'n event =
    DeviceConnected string
  | DeviceInfo string string
  | StatusReport enat
  | Requesting
  | Progress nat enat
  | TransferComplete nat nat "'n obs list"
  | ErrorSignal

datatype outbound = ACK bool nat | REQ nat

text \<open>
  The state of one connection (the variables of \<open>handleConnection\<close>), the global
  \<open>state\<close> object, and the effects: what was written to the socket, what was sent to
  the renderer, what was logged with \<open>console.error\<close>, the exceptions that no handler
  caught, and the data file.
\<close>

record 'n engine =
  buffer :: string
  controlId :: nat
  totalAvailable :: enat
  sentRequest :: bool
  rawObservations :: "string list"
  observationsReceived :: nat
  deviceInfo :: "(string \<times> string) option"
  written :: "outbound list"
  renderer :: "'n event list"
  errors_logged :: "string list"
  uncaught :: "string list"
  data_file :: "'n file_state"

definition sendToRenderer :: "'n event \<Rightarrow> 'n engine \<Rightarrow> 'n engine" where
  "sendToRenderer ev e = e\<lparr>renderer := renderer e @ [ev]\<rparr>"

text \<open>
  \<open>loadData\<close>: the parsed content of the file; \<open>{ readings: [] }\<close> when there is no
  file, and also when reading or parsing throws, which is logged.
\<close>

definition no_data :: "'n data" where
  "no_data = \<lparr>device = None, lastSync = None, totalReadings = None, readings = Readings []\<rparr>"

definition loadData :: "'n engine \<Rightarrow> 'n data \<times> 'n engine" where
  "loadData e =
     (case data_file e of
        FileContent d \<Rightarrow> (d, e)
      | NoFile \<Rightarrow> (no_data, e)
      | Unreadable \<Rightarrow> (no_data, e\<lparr>errors_logged := errors_logged e @ [''Error loading data:'']\<rparr>))"

text \<open>\<open>saveData\<close>: an exception of the write is caught and logged.\<close>

definition saveData :: "'n write_outcome \<Rightarrow> 'n data \<Rightarrow> 'n engine \<Rightarrow> 'n engine" where
  "saveData outcome d e =
     (case outcome of
        WriteOk \<Rightarrow> e\<lparr>data_file := FileContent d\<rparr>
      | WriteFails left \<Rightarrow>
          e\<lparr>data_file := left, errors_logged := errors_logged e @ [''Error saving data:'']\<rparr>)"

text \<open>\<open>allReadings.forEach((r, i) => r.sequence = i + 1)\<close>\<close>

fun renumber_from :: "nat \<Rightarrow> 'n obs list \<Rightarrow> 'n obs list" where
  "renumber_from i [] = []"
| "renumber_from i (r # rs) = r\<lparr>sequence := Some (enat (i + 1))\<rparr> # renumber_from (i + 1) rs"

definition renumber :: "'n obs list \<Rightarrow> 'n obs list" where
  "renumber rs = renumber_from 0 rs"

text \<open>
  The duplicate filter of \<open>finalizeTransfer\<close>. \<open>.filter(Boolean)\<close> removes the empty
  timestamp from the set of existing ones.
\<close>

definition uniqueNew :: "'n obs list \<Rightarrow> 'n obs list \<Rightarrow> 'n obs list" where
  "uniqueNew existingReadings newReadings =
     (let existingTimestamps = set (filter (\<lambda>t. t \<noteq> []) (map timestamp existingReadings))
      in filter (\<lambda>r. timestamp r \<notin> existingTimestamps) newReadings)"

text \<open>
  Merge, sort by timestamp and renumber. The comparison function of the sort is
  \<open>(a, b) => a.timestamp.localeCompare(b.timestamp)\<close>. \<open>localeCompare\<close> compares two
  strings by the collation of the locale, that is by their collation keys: the result is
  negative, zero or positive as the key of the first string is less than, equal to or
  greater than the key of the second. The keys are the parameter \<open>collate\<close>, into any
  linear order; the model does not say how the locale orders the characters.
  \<open>Array.prototype.sort\<close> is stable, as is \<^const>\<open>sort_key\<close>.
\<close>

definition allReadings :: "(string \<Rightarrow> 'k::linorder) \<Rightarrow> 'n obs list \<Rightarrow> 'n obs list \<Rightarrow> 'n obs list" where
  "allReadings collate existingReadings newReadings =
     renumber (sort_key (\<lambda>r. collate (timestamp r))
       (existingReadings @ uniqueNew existingReadings newReadings))"

text \<open>
  \<open>existingData.readings || []\<close> followed by \<open>existingReadings.map(...)\<close>: a falsy
  value gives the empty list, an array itself, and any other value has no method \<open>map\<close>,
  so that the call throws a \<open>TypeError\<close> (\<open>None\<close> here).
\<close>

definition existing_of :: "'n readings_field \<Rightarrow> 'n obs list option" where
  "existing_of field =
     (case field of Missing \<Rightarrow> Some [] | Readings rs \<Rightarrow> Some rs | NotArray \<Rightarrow> None)"

text \<open>
  \<open>finalizeTransfer\<close>, called when the socket closes. When the stored \<open>readings\<close> is not
  an array, the exception leaves the handler before anything is saved or sent.
\<close>

definition finalizeTransfer ::
    "(string \<Rightarrow> 'k::linorder) \<Rightarrow> (string \<Rightarrow> enat) \<Rightarrow> (string \<Rightarrow> 'n::{zero,linorder} option)
      \<Rightarrow> 'n write_outcome \<Rightarrow> string \<Rightarrow> 'n engine \<Rightarrow> 'n engine" where
  "finalizeTransfer collate parseInt parseFloat outcome now e =
     (let newReadings =
            concat (map (parseObservationsXml parseInt parseFloat) (rawObservations e));
          existingData = fst (loadData e);
          e0 = snd (loadData e)
      in case existing_of (readings existingData) of
           None \<Rightarrow> e0\<lparr>uncaught := uncaught e0 @ [''TypeError'']\<rparr>
         | Some existingReadings \<Rightarrow>
             (let new = uniqueNew existingReadings newReadings;
                  merged = allReadings collate existingReadings newReadings;
                  d = \<lparr>device = deviceInfo e0, lastSync = Some now,
                       totalReadings = Some (length merged), readings = Readings merged\<rparr>;
                  e1 = saveData outcome d e0
              in sendToRenderer (TransferComplete (length new) (length merged) merged) e1))"

definition merge_throws :: "'n engine \<Rightarrow> bool" where
  "merge_throws e = (existing_of (readings (fst (loadData e))) = None)"

text \<open>The readings that the store holds: what a merge would start from.\<close>

definition stored_readings :: "'n engine \<Rightarrow> 'n obs list" where
  "stored_readings e =
     (case existing_of (readings (fst (loadData e))) of None \<Rightarrow> [] | Some rs \<Rightarrow> rs)"

section \<open>The store of the mobile application\<close>

text \<open>\<open>addReadings\<close>: the readings of the loaded data, the new ones whose timestamp is
  not among them, sorted with \<open>localeCompare\<close> on the timestamps. There is no sequence
  number here.\<close>

definition addReadings ::
    "(string \<Rightarrow> 'k::linorder) \<Rightarrow> (('n, 'a) reading_scheme) list \<Rightarrow> (('n, 'a) reading_scheme) list
      \<Rightarrow> (('n, 'a) reading_scheme) list" where
  "addReadings collate existing newReadings =
     (let existingTimestamps = set (map timestamp existing);
          new = filter (\<lambda>r. timestamp r \<notin> existingTimestamps) newReadings
      in sort_key (\<lambda>r. collate (timestamp r)) (existing @ new))"

text \<open>A reading without its display sequence number, which every merge reassigns.\<close>

definition without_sequence :: "'n obs \<Rightarrow> 'n obs" where
  "without_sequence r = r\<lparr>sequence := None\<rparr>"

section \<open>The session engine of the desktop application\<close>

text \<open>
  \<open>(message.match(/<SVC>/g) || []).length\<close>: the number of matches of a global
  pattern, each search starting after the previous match.
\<close>

fun count_matches :: "string \<Rightarrow> string \<Rightarrow> nat" where
  "count_matches pat [] = 0"
| "count_matches pat (c # cs) =
     (if prefix pat (c # cs) then Suc (count_matches pat (drop (length pat - 1) cs))
      else count_matches pat cs)"

text \<open>A new connection from the given address: the renderer is told, and the
  variables of \<open>handleConnection\<close> take their initial values. The log of the new socket
  is empty; the rest of the global state is kept.\<close>

definition handleConnection :: "string \<Rightarrow> 'n engine \<Rightarrow> 'n engine" where
  "handleConnection remoteAddress e =
     e\<lparr>buffer := [], controlId := 20000, totalAvailable := 0, sentRequest := False,
       rawObservations := [], observationsReceived := 0, written := [],
       renderer := renderer e @ [DeviceConnected remoteAddress]\<rparr>"

text \<open>\<open>sendAck\<close> and \<open>sendRequestObservations\<close> increment the control identifier and
  write the message; of the message the model keeps the kind, the acknowledgement code
  (\<open>True\<close> for \<open>AA\<close>, \<open>False\<close> for \<open>AR\<close>) and the control identifier.\<close>

definition sendAck :: "bool \<Rightarrow> 'n engine \<Rightarrow> 'n engine" where
  "sendAck accept e =
     e\<lparr>controlId := controlId e + 1, written := written e @ [ACK accept (controlId e + 1)]\<rparr>"

definition sendRequestObservations :: "'n engine \<Rightarrow> 'n engine" where
  "sendRequestObservations e =
     e\<lparr>controlId := controlId e + 1, written := written e @ [REQ (controlId e + 1)]\<rparr>"

text \<open>
  The common start of the four blocks of \<open>processMessages\<close>:
  \<open>if (buffer.includes(tag)) { endIdx = buffer.indexOf(tag) + 10;
  message = buffer.substring(0, endIdx); buffer = buffer.substring(endIdx); ... }\<close>
\<close>

definition take_message :: "string \<Rightarrow> string \<Rightarrow> (string \<times> string) option" where
  "take_message tag buf =
     (case indexOf buf tag of
        None \<Rightarrow> None
      | Some i \<Rightarrow> (let endIdx = i + 10 in Some (take endIdx buf, drop endIdx buf)))"

definition hello_block :: "'n engine \<Rightarrow> 'n engine" where
  "hello_block e =
     (case take_message ''</HEL.R01>'' (buffer e) of
        None \<Rightarrow> e
      | Some (message, rest) \<Rightarrow>
          (let serial = (case match_attr ''DEV.serial_id V='' message of
                           None \<Rightarrow> ''Unknown'' | Some v \<Rightarrow> v);
               model = (case match_attr ''DEV.model_id V='' message of
                          None \<Rightarrow> ''Coag-Sense PT/INR'' | Some v \<Rightarrow> v);
               e1 = e\<lparr>buffer := rest, deviceInfo := Some (serial, model)\<rparr>
           in sendAck True (sendToRenderer (DeviceInfo serial model) e1)))"

definition status_block :: "(string \<Rightarrow> enat) \<Rightarrow> 'n engine \<Rightarrow> 'n engine" where
  "status_block parseInt e =
     (case take_message ''</DST.R01>'' (buffer e) of
        None \<Rightarrow> e
      | Some (message, rest) \<Rightarrow>
          (let total = (case match_digits ''new_observations_qty V='' message of
                          None \<Rightarrow> 0 | Some ds \<Rightarrow> parseInt ds);
               e1 = e\<lparr>buffer := rest, totalAvailable := total\<rparr>;
               e2 = sendAck True (sendToRenderer (StatusReport total) e1)
           in if \<not> sentRequest e2
              then sendRequestObservations (sendToRenderer Requesting (e2\<lparr>sentRequest := True\<rparr>))
              else e2))"

definition observations_block :: "bool \<Rightarrow> 'n engine \<Rightarrow> 'n engine" where
  "observations_block acceptObservations e =
     (case take_message ''</OBS.R01>'' (buffer e) of
        None \<Rightarrow> e
      | Some (message, rest) \<Rightarrow>
          (let svcCount = count_matches ''<SVC>'' message;
               e1 = e\<lparr>buffer := rest,
                      observationsReceived := observationsReceived e + svcCount,
                      rawObservations := rawObservations e @ [message]\<rparr>;
               e2 = sendToRenderer (Progress (observationsReceived e1) (totalAvailable e1)) e1
           in sendAck acceptObservations e2))"

definition end_block :: "'n engine \<Rightarrow> 'n engine" where
  "end_block e =
     (case take_message ''</EOT.R01>'' (buffer e) of
        None \<Rightarrow> e
      | Some (message, rest) \<Rightarrow> sendAck True (e\<lparr>buffer := rest\<rparr>))"

definition escape_block :: "'n engine \<Rightarrow> 'n engine" where
  "escape_block e =
     (if indexOf (buffer e) ''</ESC.R01>'' \<noteq> None \<or> indexOf (buffer e) ''<ERR'' \<noteq> None
      then sendToRenderer ErrorSignal e else e)"

definition processMessages :: "(string \<Rightarrow> enat) \<Rightarrow> bool \<Rightarrow> 'n engine \<Rightarrow> 'n engine" where
  "processMessages parseInt acceptObservations e =
     escape_block (end_block (observations_block acceptObservations
       (status_block parseInt (hello_block e))))"

text \<open>The \<open>data\<close> event of the socket, and a whole session: the chunks in arrival order.\<close>

definition on_data :: "(string \<Rightarrow> enat) \<Rightarrow> bool \<Rightarrow> 'n engine \<Rightarrow> string \<Rightarrow> 'n engine" where
  "on_data parseInt acceptObservations e chunk =
     processMessages parseInt acceptObservations (e\<lparr>buffer := buffer e @ chunk\<rparr>)"

definition session ::
    "(string \<Rightarrow> enat) \<Rightarrow> bool \<Rightarrow> string \<Rightarrow> 'n engine \<Rightarrow> string list \<Rightarrow> 'n engine" where
  "session parseInt acceptObservations remoteAddress e chunks =
     foldl (on_data parseInt acceptObservations) (handleConnection remoteAddress e) chunks"

definition is_REQ :: "outbound \<Rightarrow> bool" where
  "is_REQ m = (case m of REQ n \<Rightarrow> True | ACK a n \<Rightarrow> False)"

definition is_StatusReport :: "'n event \<Rightarrow> bool" where
  "is_StatusReport ev = (case ev of StatusReport n \<Rightarrow> True | _ \<Rightarrow> False)"

text \<open>
  The events that the renderer was sent since a session started on the engine \<open>e0\<close>,
  after the \<open>device-connected\<close> event that opens the session.
\<close>

definition session_events :: "'n engine \<Rightarrow> 'n engine \<Rightarrow> 'n event list" where
  "session_events e0 e = drop (Suc (length (renderer e0))) (renderer e)"

text \<open>
  What holds of the two logs of a session at every moment, \<open>base\<close> being what the
  renderer had been sent when the session started, its \<open>device-connected\<close> event
  included. Either no status report has been processed and no request was written; or
  the request was written once, right after an accepting acknowledgement and with the
  next control identifier, and the renderer was told \<open>requesting\<close> right after the first
  status report.
\<close>

definition request_state :: "'n event list \<Rightarrow> 'n engine \<Rightarrow> bool" where
  "request_state base e =
     (\<exists>evs. renderer e = base @ evs
        \<and> ((\<not> sentRequest e \<and> filter is_StatusReport evs = []
              \<and> filter is_REQ (written e) = [])
            \<or> (sentRequest e
                \<and> (\<exists>pre n post. written e = pre @ [ACK True n, REQ (Suc n)] @ post
                      \<and> filter is_REQ pre = [] \<and> filter is_REQ post = [])
                \<and> (\<exists>evs1 t evs2. evs = evs1 @ [StatusReport t, Requesting] @ evs2
                      \<and> filter is_StatusReport evs1 = []))))"

text \<open>An engine before any connection, with the given data file.\<close>

definition idle :: "'n file_state \<Rightarrow> 'n engine" where
  "idle f = \<lparr>buffer = [], controlId = 0, totalAvailable = 0, sentRequest = False,
             rawObservations = [], observationsReceived = 0, deviceInfo = None,
             written = [], renderer = [], errors_logged = [], uncaught = [], data_file = f\<rparr>"

section \<open>The import of the desktop application\<close>

text \<open>
  The handler of \<open>import-data\<close>. The dialog and the file are inputs: \<open>None\<close> when the
  dialog was cancelled, \<open>Some (Inl msg)\<close> when reading or parsing the chosen file threw
  an error with that message, \<open>Some (Inr d)\<close> when it parsed to \<open>d\<close>. The handler
  answers \<open>success: true\<close> with the number of readings as soon as \<open>data.readings\<close> is an
  array: \<open>saveData\<close> returns nothing, and an exception of the write does not leave it.
\<close>

datatype import_result = ImportSuccess nat | ImportError string | ImportNothing

definition import_data ::
    "'n write_outcome \<Rightarrow> (string + 'n data) option \<Rightarrow> 'n engine \<Rightarrow> import_result \<times> 'n engine" where
  "import_data outcome chosen e =
     (case chosen of
        None \<Rightarrow> (ImportNothing, e)
      | Some (Inl msg) \<Rightarrow> (ImportError msg, e)
      | Some (Inr d) \<Rightarrow>
          (case readings d of
             Readings rs \<Rightarrow> (ImportSuccess (length rs), saveData outcome d e)
           | _ \<Rightarrow> (ImportError ''Invalid data format'', e)))"

section \<open>The session engine of the mobile application\<close>

text \<open>The fields of \<open>BluetoothService\<close> that \<open>processMessages\<close> uses, the readings and
  the total of \<open>syncData\<close>, and what was sent to the device.\<close>

record 'n ble =
  dataBuffer :: string
  ble_controlId :: nat
  ble_readings :: "'n INRReading list"
  ble_total :: enat
  ble_written :: "outbound list"

definition ble_sendAck :: "bool \<Rightarrow> 'n ble \<Rightarrow> 'n ble" where
  "ble_sendAck accept b =
     b\<lparr>ble_controlId := ble_controlId b + 1,
       ble_written := ble_written b @ [ACK accept (ble_controlId b + 1)]\<rparr>"

definition ble_processMessages ::
    "(nat \<Rightarrow> string) \<Rightarrow> (string \<Rightarrow> enat) \<Rightarrow> (string \<Rightarrow> 'n::{zero,linorder} option)
      \<Rightarrow> 'n ble \<Rightarrow> 'n ble" where
  "ble_processMessages newId parseInt parseFloat b0 =
     (let b1 = (case take_message ''</HEL.R01>'' (dataBuffer b0) of
                  None \<Rightarrow> b0
                | Some (message, rest) \<Rightarrow> ble_sendAck True (b0\<lparr>dataBuffer := rest\<rparr>));
          b2 = (case take_message ''</DST.R01>'' (dataBuffer b1) of
                  None \<Rightarrow> b1
                | Some (message, rest) \<Rightarrow>
                    (let total = (case match_digits ''new_observations_qty V='' message of
                                    None \<Rightarrow> 0 | Some ds \<Rightarrow> parseInt ds)
                     in ble_sendAck True (b1\<lparr>dataBuffer := rest, ble_total := total\<rparr>)));
          b3 = (case take_message ''</OBS.R01>'' (dataBuffer b2) of
                  None \<Rightarrow> b2
                | Some (message, rest) \<Rightarrow>
                    ble_sendAck False
                      (b2\<lparr>dataBuffer := rest,
                          ble_readings := ble_readings b2 @ parseObservationsXml_ble newId parseFloat message\<rparr>))
      in (case take_message ''</EOT.R01>'' (dataBuffer b3) of
            None \<Rightarrow> b3
          | Some (message, rest) \<Rightarrow> ble_sendAck True (b3\<lparr>dataBuffer := rest\<rparr>)))"

definition ble_on_data ::
    "(nat \<Rightarrow> string) \<Rightarrow> (string \<Rightarrow> enat) \<Rightarrow> (string \<Rightarrow> 'n::{zero,linorder} option)
      \<Rightarrow> 'n ble \<Rightarrow> string \<Rightarrow> 'n ble" where
  "ble_on_data newId parseInt parseFloat b chunk =
     ble_processMessages newId parseInt parseFloat (b\<lparr>dataBuffer := dataBuffer b @ chunk\<rparr>)"

section \<open>The statistics of the mobile application\<close>

record Settings =
  targetRangeMin :: rat
  targetRangeMax :: rat
  syncToHealthKit :: bool
  autoConnect :: bool
  lastDeviceId :: "string option"

definition DEFAULT_SETTINGS :: Settings where
  "DEFAULT_SETTINGS = \<lparr>targetRangeMin = 2, targetRangeMax = 3, syncToHealthKit = True,
                        autoConnect = True, lastDeviceId = None\<rparr>"

text \<open>
  The statistics take the numbers of the readings as rationals. \<open>Math.round\<close> rounds
  to the nearest integer, a half upwards. The quotient and the product are computed
  exactly here; the program computes them in floating point, which can give one less
  where the exact value ends in one half (23 readings of 40 in range: 58 here, 57
  there). The values used below (0, 50 and 100, and the bounds) are the same in both.
\<close>

definition Math_round :: "rat \<Rightarrow> int" where
  "Math_round x = \<lfloor>x + 1 / 2\<rfloor>"

definition inRangeCount :: "((rat, 'a) reading_scheme) list \<Rightarrow> Settings \<Rightarrow> nat" where
  "inRangeCount rs settings =
     length (filter (\<lambda>r. inr r \<ge> targetRangeMin settings \<and> inr r \<le> targetRangeMax settings) rs)"

text \<open>\<open>ttr\<close> of \<open>generateReportHTML\<close>, shown as "Time in Range" in the report.\<close>

definition ttr :: "((rat, 'a) reading_scheme) list \<Rightarrow> Settings \<Rightarrow> int" where
  "ttr rs settings =
     (if length rs > 0
      then Math_round (of_nat (inRangeCount rs settings) / of_nat (length rs) * 100)
      else 0)"

text \<open>\<open>inRangePercent\<close> of \<open>DashboardScreen\<close>: the same expression.\<close>

definition inRangePercent :: "((rat, 'a) reading_scheme) list \<Rightarrow> Settings \<Rightarrow> int" where
  "inRangePercent rs settings =
     (let totalReadings = length rs
      in if totalReadings > 0
         then Math_round (of_nat (inRangeCount rs settings) / of_nat totalReadings * 100)
         else 0)"

text \<open>
  The Time-in-Therapeutic-Range of the specification (the Rosendaal method), written
  from its words: between two consecutive readings the value is interpolated linearly,
  the part of the interval whose interpolated value lies in \<open>[lo, hi]\<close> is in-range time,
  and the metric is the total in-range time over the total observed time, times 100.
  A reading is a pair of a time and a value. With fewer than two readings the metric is
  undefined.
\<close>

definition rosendaal_in_range_time :: "rat \<Rightarrow> rat \<Rightarrow> rat \<times> rat \<Rightarrow> rat \<times> rat \<Rightarrow> rat" where
  "rosendaal_in_range_time lo hi p q =
     (let dt = fst q - fst p; a = min (snd p) (snd q); b = max (snd p) (snd q)
      in if a = b then (if lo \<le> a \<and> a \<le> hi then dt else 0)
         else dt * max 0 (min b hi - max a lo) / (b - a))"

fun rosendaal_total_in_range :: "rat \<Rightarrow> rat \<Rightarrow> (rat \<times> rat) list \<Rightarrow> rat" where
  "rosendaal_total_in_range lo hi (p # q # ps) =
     rosendaal_in_range_time lo hi p q + rosendaal_total_in_range lo hi (q # ps)"
| "rosendaal_total_in_range lo hi ps = 0"

definition rosendaal_ttr :: "rat \<Rightarrow> rat \<Rightarrow> (rat \<times> rat) list \<Rightarrow> rat option" where
  "rosendaal_ttr lo hi ps =
     (if length ps < 2 then None
      else Some (rosendaal_total_in_range lo hi ps / (fst (last ps) - fst (hd ps)) * 100))"

section \<open>An example message\<close>

text \<open>
  The body of an observation message with three groups: one that has no primary value,
  a valid one, and one whose secondary value is zero. \<open>example_parseFloat\<close> gives the
  values of \<open>parseFloat\<close> on the strings that occur in it; no group has a sequence
  number, so that \<open>example_parseInt\<close> is never applied.
\<close>

definition example_groups :: "(string \<times> string) list" where
  "example_groups =
     [([], ''<SVC.observation_dttm V='' @ [dquote] @ ''T0'' @ [dquote]
            @ ''/><OBS.observation_id V='' @ [dquote] @ ''5902-2'' @ [dquote]
            @ ''/><OBS.value V='' @ [dquote] @ ''30'' @ [dquote] @ ''/>''),
      ([], ''<SVC.observation_dttm V='' @ [dquote] @ ''T1'' @ [dquote]
            @ ''/><OBS.observation_id V='' @ [dquote] @ ''34714-6'' @ [dquote]
            @ ''/><OBS.value V='' @ [dquote] @ ''2.5'' @ [dquote]
            @ ''/><OBS.observation_id V='' @ [dquote] @ ''5902-2'' @ [dquote]
            @ ''/><OBS.value V='' @ [dquote] @ ''30'' @ [dquote] @ ''/>''),
      ([], ''<SVC.observation_dttm V='' @ [dquote] @ ''T2'' @ [dquote]
            @ ''/><OBS.observation_id V='' @ [dquote] @ ''34714-6'' @ [dquote]
            @ ''/><OBS.value V='' @ [dquote] @ ''2.5'' @ [dquote]
            @ ''/><OBS.observation_id V='' @ [dquote] @ ''5902-2'' @ [dquote]
            @ ''/><OBS.value V='' @ [dquote] @ ''0'' @ [dquote] @ ''/>'')]"

definition example_batch :: string where
  "example_batch = groups_text example_groups []"

definition example_parseFloat :: "string \<Rightarrow> rat option" where
  "example_parseFloat s =
     (if s = ''2.5'' then Some (5 / 2) else if s = ''30'' then Some 30
      else if s = ''0'' then Some 0 else None)"

definition example_parseInt :: "string \<Rightarrow> enat" where
  "example_parseInt s = 0"

text \<open>
  Collation keys for the examples: the characters by their codes, except that the
  hyphen comes before the plus sign, as it does in the collation of the program's
  locale.
\<close>

definition example_collate :: "string \<Rightarrow> nat list" where
  "example_collate s =
     map (\<lambda>c. if c = CHR ''-'' then 0 else if c = CHR ''+'' then 1 else 2 + of_char c) s"

section \<open>Properties of the extractor\<close>

subsection \<open>The loop over the groups finds every group\<close>

text \<open>A tag starts with a character that does not occur again in it, so an occurrence
  cannot begin before the tag and end inside it.\<close>

lemma no_straddle:
  assumes "c \<notin> set t" and "\<not> prefix (c # t) s" and "s \<noteq> []"
  shows "\<not> prefix (c # t) (s @ (c # t) @ r)"
proof
  assume "prefix (c # t) (s @ (c # t) @ r)"
  then consider "prefix (c # t) s"
    | us where "c # t = s @ us" and "prefix us ((c # t) @ r)"
    unfolding prefix_append by blast
  then show False
  proof cases
    case 1
    with assms(2) show False by simp
  next
    case 2
    obtain x s' where s: "s = x # s'" using assms(3) by (cases s) auto
    show False
    proof (cases us)
      case Nil
      with 2(1) assms(2) show False by simp
    next
      case (Cons u us')
      with 2(2) have "u = c" by simp
      with 2(1) s Cons have "t = s' @ c # us'" by simp
      with assms(1) show False by simp
    qed
  qed
qed

lemma indexOf_append_tag:
  assumes "c \<notin> set t"
  shows "indexOf s (c # t) = None \<Longrightarrow> indexOf (s @ (c # t) @ r) (c # t) = Some (length s)"
proof (induction s)
  case Nil
  show ?case by simp
next
  case (Cons a s)
  from Cons.prems have np: "\<not> prefix (c # t) (a # s)" and rest: "indexOf s (c # t) = None"
    by (auto split: if_splits)
  have "\<not> prefix (c # t) (a # (s @ (c # t) @ r))"
    using no_straddle [OF assms np, of r] unfolding append_Cons by simp
  then have "indexOf (a # (s @ (c # t) @ r)) (c # t) =
      map_option Suc (indexOf (s @ (c # t) @ r) (c # t))"
    by (simp only: indexOf.simps if_False)
  with Cons.IH [OF rest] show ?case by (simp only: append_Cons option.map length_Cons)
qed

lemma until_lit_append_tag:
  assumes "c \<notin> set t"
  shows "indexOf b (c # t) = None \<Longrightarrow> until_lit (c # t) (b @ (c # t) @ r) = Some (b, r)"
proof (induction b)
  case Nil
  show ?case by simp
next
  case (Cons a b)
  from Cons.prems have np: "\<not> prefix (c # t) (a # b)" and rest: "indexOf b (c # t) = None"
    by (auto split: if_splits)
  have "\<not> prefix (c # t) (a # (b @ (c # t) @ r))"
    using no_straddle [OF assms np, of r] unfolding append_Cons by simp
  then have "until_lit (c # t) (a # (b @ (c # t) @ r)) =
      map_option (\<lambda>(v, r). (a # v, r)) (until_lit (c # t) (b @ (c # t) @ r))"
    by (simp only: until_lit.simps if_False)
  with Cons.IH [OF rest] show ?case by (simp only: append_Cons option.map prod.case)
qed

lemma until_lit_None: "until_lit cl s = None \<longleftrightarrow> indexOf s cl = None"
  by (induction s) auto

lemma svc_groups_cons:
  assumes "indexOf sep ''<SVC>'' = None" and "indexOf body ''</SVC>'' = None"
  shows "svc_groups (sep @ ''<SVC>'' @ body @ ''</SVC>'' @ rest) = body # svc_groups rest"
proof -
  let ?xml = "sep @ ''<SVC>'' @ body @ ''</SVC>'' @ rest"
  have i: "indexOf ?xml ''<SVC>'' = Some (length sep)"
    using indexOf_append_tag [of "CHR ''<''" "''SVC>''" sep "body @ ''</SVC>'' @ rest"] assms(1)
    by simp
  have "drop (length sep + 5) ?xml = body @ ''</SVC>'' @ rest" by simp
  moreover have "until_lit ''</SVC>'' (body @ ''</SVC>'' @ rest) = Some (body, rest)"
    using until_lit_append_tag [of "CHR ''<''" "''/SVC>''" body rest] assms(2) by simp
  ultimately have u: "until_lit ''</SVC>'' (drop (length sep + 5) ?xml) = Some (body, rest)"
    by (simp only:)
  show ?thesis
    by (subst svc_groups.simps) (simp only: i u option.case prod.case)
qed

lemma svc_groups_tail:
  assumes "no_group tail"
  shows "svc_groups tail = []"
proof (cases "indexOf tail ''<SVC>''")
  case None
  then show ?thesis by (subst svc_groups.simps) simp
next
  case (Some i)
  with assms have "indexOf (drop (i + 5) tail) ''</SVC>'' = None"
    by (simp add: no_group_def)
  then have "until_lit ''</SVC>'' (drop (i + 5) tail) = None"
    by (simp only: until_lit_None)
  with Some show ?thesis by (subst svc_groups.simps) simp
qed

lemma svc_groups_text:
  assumes "\<forall>g \<in> set gs. indexOf (fst g) ''<SVC>'' = None \<and> indexOf (snd g) ''</SVC>'' = None"
  shows "svc_groups (groups_text gs tail) = map snd gs @ svc_groups tail"
  using assms
proof (induction gs)
  case Nil
  show ?case by simp
next
  case (Cons g gs)
  then have "svc_groups (groups_text (g # gs) tail) = snd g # svc_groups (groups_text gs tail)"
    using svc_groups_cons [of "fst g" "snd g" "groups_text gs tail"] by simp
  with Cons show ?case by simp
qed

subsection \<open>The validity test is the acceptance condition\<close>

lemma search_Some: "search m s = Some v \<Longrightarrow> \<exists>t. m t = Some v"
  by (induction s) (auto split: option.splits)

lemma quoted_value_nonempty: "quoted_value r = Some v \<Longrightarrow> v \<noteq> []"
  by (auto simp: quoted_value_def Let_def split: if_splits)

lemma svc_timestamp_nonempty:
  assumes "svc_timestamp svc = Some t"
  shows "t \<noteq> []"
proof -
  obtain u where "(case lit (''<SVC.observation_dttm V='' @ [dquote]) u of
                     None \<Rightarrow> None | Some r \<Rightarrow> quoted_value r) = Some t"
    using assms search_Some unfolding svc_timestamp_def match_attr_def by fast
  then show ?thesis
    by (auto split: option.splits dest: quoted_value_nonempty)
qed

lemma parse_svc_accepted:
  "parse_svc pint pf svc = (if accepted pf svc then Some (obs_of pint pf svc) else None)"
proof (cases "svc_timestamp svc")
  case None
  then show ?thesis by (simp add: parse_svc_def accepted_def)
next
  case (Some t)
  then have "t \<noteq> []" by (rule svc_timestamp_nonempty)
  with Some show ?thesis
    by (auto simp: parse_svc_def accepted_def obs_of_def split: option.splits)
qed


lemma parse_as_filter:
  "parseObservationsXml pint pf xml =
     map (obs_of pint pf) (filter (accepted pf) (svc_groups xml))"
  unfolding parseObservationsXml_def map_filter_map_filter
  by (rule arg_cong [where f = "\<lambda>f. List.map_filter f (svc_groups xml)"])
     (simp add: fun_eq_iff parse_svc_accepted)



text \<open>
  The example message: its first group has no primary value, its second group is valid,
  its third group has a secondary value of zero. Only the second is extracted.
\<close>

lemma example_groups_wellformed:
  "\<forall>g \<in> set example_groups. indexOf (fst g) ''<SVC>'' = None \<and> indexOf (snd g) ''</SVC>'' = None"
  by (simp add: example_groups_def dquote_def)

lemma example_accepted:
  "map (obs_of example_parseInt example_parseFloat)
     (filter (accepted example_parseFloat) (map snd example_groups))
   = [\<lparr>timestamp = ''T1'', inr = 5 / 2, pt_seconds = 30, status = None, sequence = None\<rparr>]"
  by (simp add: example_groups_def example_parseFloat_def accepted_def obs_of_def
      svc_timestamp_def svc_number_def svc_status_def svc_sequence_def match_attr_def
      match_digits_def match_obs_value_def obs_value_at_def lit_def quoted_value_def
      quoted_digits_def dquote_def Let_def is_space_def)

lemma parse_example:
  "parseObservationsXml example_parseInt example_parseFloat example_batch
   = [\<lparr>timestamp = ''T1'', inr = 5 / 2, pt_seconds = 30, status = None, sequence = None\<rparr>]"
proof -
  have "svc_groups example_batch = map snd example_groups"
    unfolding example_batch_def
    using svc_groups_text [OF example_groups_wellformed, of "[]"] svc_groups_tail [of "[]"]
    by (simp add: no_group_def)
  then show ?thesis
    by (simp only: parse_as_filter example_accepted)
qed


section \<open>Properties of the reconciliation store\<close>

lemma strip_renumber_from: "map without_sequence (renumber_from i rs) = map without_sequence rs"
  by (induction rs arbitrary: i) (auto simp: without_sequence_def)

lemma timestamp_renumber_from: "map timestamp (renumber_from i rs) = map timestamp rs"
  by (induction rs arbitrary: i) auto



lemma renumber_from_idem: "renumber_from i (renumber_from i rs) = renumber_from i rs"
  by (induction rs arbitrary: i) auto

lemma key_renumber:
  "map (\<lambda>r. co (timestamp r)) (renumber rs) = map (\<lambda>r. co (timestamp r)) rs"
proof -
  have "map (\<lambda>r. co (timestamp r)) (renumber rs) = map co (map timestamp (renumber rs))"
    by (simp add: comp_def)
  also have "\<dots> = map co (map timestamp rs)"
    by (simp only: renumber_def timestamp_renumber_from)
  finally show ?thesis by (simp add: comp_def)
qed

lemma sorted_allReadings: "sorted (map (\<lambda>r. co (timestamp r)) (allReadings co R C))"
  unfolding allReadings_def key_renumber by simp

lemma set_timestamp_allReadings:
  "set (map timestamp (allReadings co R C)) = timestamp ` set R \<union> timestamp ` set (uniqueNew R C)"
  by (simp add: allReadings_def renumber_def timestamp_renumber_from image_Un)


lemma uniqueNew_again:
  assumes "\<forall>c \<in> set C. timestamp c \<noteq> []"
  shows "uniqueNew (allReadings co R C) C = []"
proof -
  have "timestamp c \<in> set (filter (\<lambda>t. t \<noteq> []) (map timestamp (allReadings co R C)))"
    if c: "c \<in> set C" for c
  proof (cases "timestamp c \<in> set (filter (\<lambda>t. t \<noteq> []) (map timestamp R))")
    case True
    then show ?thesis using set_timestamp_allReadings [of co R C] by auto
  next
    case False
    then have "c \<in> set (uniqueNew R C)" using c by (simp add: uniqueNew_def)
    then have "timestamp c \<in> set (map timestamp (allReadings co R C))"
      unfolding set_timestamp_allReadings by blast
    then show ?thesis using assms c by simp
  qed
  then show ?thesis by (simp add: uniqueNew_def filter_empty_conv)
qed

lemma allReadings_sorted_id:
  "sort_key (\<lambda>r. co (timestamp r)) (allReadings co R C) = allReadings co R C"
  by (rule sort_key_id_if_sorted) (rule sorted_allReadings)

lemma allReadings_again:
  assumes "\<forall>c \<in> set C. timestamp c \<noteq> []"
  shows "allReadings co (allReadings co R C) C = allReadings co R C"
proof -
  have "allReadings co (allReadings co R C) C =
      renumber (sort_key (\<lambda>r. co (timestamp r)) (allReadings co R C))"
    by (simp add: allReadings_def [of co "allReadings co R C"] uniqueNew_again [OF assms])
  also have "\<dots> = renumber (allReadings co R C)"
    by (simp only: allReadings_sorted_id)
  also have "\<dots> = allReadings co R C"
    by (simp add: allReadings_def renumber_def renumber_from_idem)
  finally show ?thesis .
qed

lemma parse_svc_timestamp: "parse_svc pint pf svc = Some r \<Longrightarrow> timestamp r \<noteq> []"
  by (auto simp: parse_svc_def split: option.splits if_splits)

lemma in_map_filter: "r \<in> set (List.map_filter f xs) \<Longrightarrow> \<exists>x \<in> set xs. f x = Some r"
  by (induction xs) (auto simp: map_filter_simps split: option.splits)

lemma parseObservationsXml_timestamp:
  assumes "r \<in> set (parseObservationsXml pint pf xml)"
  shows "timestamp r \<noteq> []"
proof -
  obtain svc where "parse_svc pint pf svc = Some r"
    using in_map_filter [of r "parse_svc pint pf" "svc_groups xml"] assms
    unfolding parseObservationsXml_def by blast
  then show ?thesis by (rule parse_svc_timestamp)
qed

lemma stored_when_throws: "merge_throws e \<Longrightarrow> stored_readings e = []"
  by (simp add: merge_throws_def stored_readings_def)

lemma finalize_throws:
  "merge_throws e \<Longrightarrow>
     finalizeTransfer co pint pf outcome now e =
       (snd (loadData e))\<lparr>uncaught := uncaught (snd (loadData e)) @ [''TypeError'']\<rparr>"
  by (simp add: merge_throws_def finalizeTransfer_def Let_def)

lemma loadData_file: "data_file (snd (loadData e)) = data_file e"
  by (simp add: loadData_def split: file_state.splits)

lemma stored_finalize:
  "stored_readings (finalizeTransfer co pint pf WriteOk now e) =
     (if merge_throws e then []
      else allReadings co (stored_readings e)
             (concat (map (parseObservationsXml pint pf) (rawObservations e))))"
proof (cases "merge_throws e")
  case True
  have "stored_readings (finalizeTransfer co pint pf WriteOk now e) = stored_readings e"
    unfolding finalize_throws [OF True]
    by (simp add: stored_readings_def loadData_def split: file_state.splits)
  with True show ?thesis by (simp add: stored_when_throws)
next
  case False
  then obtain rs where "existing_of (readings (fst (loadData e))) = Some rs"
    by (auto simp: merge_throws_def)
  with False show ?thesis
    by (simp add: finalizeTransfer_def stored_readings_def saveData_def sendToRenderer_def
        Let_def loadData_def existing_of_def)
qed

lemma throws_finalize:
  "merge_throws (finalizeTransfer co pint pf WriteOk now e) = merge_throws e"
proof (cases "merge_throws e")
  case True
  then show ?thesis
    unfolding finalize_throws [OF True]
    by (simp add: merge_throws_def loadData_def split: file_state.splits)
next
  case False
  then obtain rs where "existing_of (readings (fst (loadData e))) = Some rs"
    by (auto simp: merge_throws_def)
  with False show ?thesis
    by (simp add: finalizeTransfer_def merge_throws_def saveData_def sendToRenderer_def
        Let_def loadData_def existing_of_def)
qed

lemma raw_finalize: "rawObservations (finalizeTransfer co pint pf outcome now e) = rawObservations e"
  by (simp add: finalizeTransfer_def saveData_def sendToRenderer_def Let_def loadData_def
      split: option.splits file_state.splits write_outcome.splits)

lemma addReadings_sorted: "sorted (map (\<lambda>r. co (timestamp r)) (addReadings co R C))"
  by (simp add: addReadings_def Let_def)

lemma addReadings_again: "addReadings co (addReadings co R C) C = addReadings co R C"
proof -
  have "filter (\<lambda>r. timestamp r \<notin> set (map timestamp (addReadings co R C))) C = []"
    by (auto simp: addReadings_def Let_def filter_empty_conv)
  then have "addReadings co (addReadings co R C) C =
      sort_key (\<lambda>r. co (timestamp r)) (addReadings co R C)"
    by (simp add: addReadings_def [of co "addReadings co R C"] Let_def)
  then show ?thesis
    by (simp add: sort_key_id_if_sorted addReadings_sorted)
qed

lemma content_allReadings:
  "mset (map without_sequence (allReadings co X Y)) =
     mset (map without_sequence X) + mset (map without_sequence (uniqueNew X Y))"
proof -
  have "mset (map without_sequence (allReadings co X Y)) =
        image_mset without_sequence (mset (sort_key (\<lambda>r. co (timestamp r)) (X @ uniqueNew X Y)))"
    by (simp add: allReadings_def renumber_def strip_renumber_from)
  then show ?thesis by simp
qed

lemma allReadings_keeps:
  "mset (map without_sequence A) \<subseteq># mset (map without_sequence (allReadings co A B))"
  unfolding content_allReadings by simp

text \<open>
  Claim C3. Merging the same candidates twice stores the same readings as merging them
  once. Desktop: the candidates of \<open>finalizeTransfer\<close> are what \<open>parseObservationsXml\<close>
  extracts from the raw messages of the session, so finalizing the same raw messages a
  second time (both writes succeeding) leaves the stored readings as the first
  finalization left them. Mobile: \<open>addReadings\<close> applied twice to the same candidate list
  gives what it gives once, for every stored list and every candidate list. Both hold
  whatever the collation of \<open>localeCompare\<close> is.
\<close>

theorem merge_idempotent:
  "stored_readings (finalizeTransfer collate pint pf WriteOk now'
       (finalizeTransfer collate pint pf WriteOk now e)) =
     stored_readings (finalizeTransfer collate pint pf WriteOk now e)
   \<and> addReadings collate (addReadings collate R C) C = addReadings collate R C"
proof -
  have "\<forall>c \<in> set (concat (map (parseObservationsXml pint pf) (rawObservations e))).
          timestamp c \<noteq> []"
    by (auto dest: parseObservationsXml_timestamp)
  then show ?thesis
    by (simp add: stored_finalize throws_finalize raw_finalize allReadings_again
        addReadings_again)
qed

text \<open>
  Claim C4. Every stored reading is still stored after a merge, whatever the candidates.
  Desktop: as many copies of each reading as before, up to the display sequence number,
  which the merge reassigns to every reading; this holds of the merge step for arbitrary
  lists, and of \<open>finalizeTransfer\<close> when its write succeeds. Mobile: the stored readings
  themselves, with their multiplicities.
\<close>

theorem merge_preserves:
  "mset (map without_sequence (stored_readings e)) \<subseteq>#
     mset (map without_sequence
       (stored_readings (finalizeTransfer collate pint pf WriteOk now e)))
   \<and> mset (map without_sequence X) \<subseteq># mset (map without_sequence (allReadings collate X Y))
   \<and> mset R \<subseteq># mset (addReadings collate R C)"
proof (intro conjI)
  note step = allReadings_keeps
  show "mset (map without_sequence X) \<subseteq># mset (map without_sequence (allReadings collate X Y))"
    by (rule step)
  show "mset (map without_sequence (stored_readings e)) \<subseteq>#
     mset (map without_sequence
       (stored_readings (finalizeTransfer collate pint pf WriteOk now e)))"
  proof (cases "merge_throws e")
    case True
    then show ?thesis by (simp add: stored_when_throws)
  next
    case False
    then show ?thesis unfolding stored_finalize using step by simp
  qed
  show "mset R \<subseteq># mset (addReadings collate R C)"
    by (simp add: addReadings_def Let_def)
qed





section \<open>Properties of the session engine\<close>

lemma request_state_append:
  assumes inv: "request_state base e"
    and sr: "sentRequest e' = sentRequest e"
    and w: "written e' = written e @ ws" and ws: "filter is_REQ ws = []"
    and r: "renderer e' = renderer e @ new"
    and new: "sentRequest e \<or> filter is_StatusReport new = []"
  shows "request_state base e'"
proof -
  from inv obtain evs where evs: "renderer e = base @ evs"
    and cases: "(\<not> sentRequest e \<and> filter is_StatusReport evs = []
              \<and> filter is_REQ (written e) = [])
            \<or> (sentRequest e
                \<and> (\<exists>pre n post. written e = pre @ [ACK True n, REQ (Suc n)] @ post
                      \<and> filter is_REQ pre = [] \<and> filter is_REQ post = [])
                \<and> (\<exists>evs1 t evs2. evs = evs1 @ [StatusReport t, Requesting] @ evs2
                      \<and> filter is_StatusReport evs1 = []))"
    unfolding request_state_def by blast
  have r': "renderer e' = base @ (evs @ new)" using r evs by simp
  show ?thesis
  proof (cases "sentRequest e")
    case False
    with cases have "filter is_StatusReport evs = []" "filter is_REQ (written e) = []"
      by auto
    with False sr w ws new have
      "\<not> sentRequest e' \<and> filter is_StatusReport (evs @ new) = []
         \<and> filter is_REQ (written e') = []"
      by simp
    with r' show ?thesis unfolding request_state_def by blast
  next
    case True
    with cases obtain pre n post evs1 t evs2 where
      a: "written e = pre @ [ACK True n, REQ (Suc n)] @ post"
        "filter is_REQ pre = []" "filter is_REQ post = []"
      and b: "evs = evs1 @ [StatusReport t, Requesting] @ evs2"
        "filter is_StatusReport evs1 = []"
      by auto
    have "written e' = pre @ [ACK True n, REQ (Suc n)] @ (post @ ws)"
      using a w by simp
    moreover have "filter is_REQ (post @ ws) = []" using a ws by simp
    moreover have "evs @ new = evs1 @ [StatusReport t, Requesting] @ (evs2 @ new)"
      using b by simp
    ultimately have
      "sentRequest e'
         \<and> (\<exists>pre n post. written e' = pre @ [ACK True n, REQ (Suc n)] @ post
               \<and> filter is_REQ pre = [] \<and> filter is_REQ post = [])
         \<and> (\<exists>evs1 t evs2. evs @ new = evs1 @ [StatusReport t, Requesting] @ evs2
               \<and> filter is_StatusReport evs1 = [])"
      using True sr a(2) b(2) by blast
    with r' show ?thesis unfolding request_state_def by blast
  qed
qed

lemma request_state_extend:
  assumes "request_state base e"
    and "sentRequest e' = sentRequest e"
    and "take (length (written e)) (written e') = written e"
    and "filter is_REQ (drop (length (written e)) (written e')) = []"
    and "take (length (renderer e)) (renderer e') = renderer e"
    and "filter is_StatusReport (drop (length (renderer e)) (renderer e')) = []"
  shows "request_state base e'"
proof (rule request_state_append [OF assms(1,2)])
  show "written e' = written e @ drop (length (written e)) (written e')"
    using assms(3) by (metis append_take_drop_id)
  show "renderer e' = renderer e @ drop (length (renderer e)) (renderer e')"
    using assms(5) by (metis append_take_drop_id)
  show "filter is_REQ (drop (length (written e)) (written e')) = []" by (rule assms(4))
  show "sentRequest e \<or> filter is_StatusReport (drop (length (renderer e)) (renderer e')) = []"
    using assms(6) by simp
qed

lemma hello_block_state: "request_state base e \<Longrightarrow> request_state base (hello_block e)"
  by (erule request_state_extend)
    (simp_all add: hello_block_def sendAck_def sendToRenderer_def Let_def is_StatusReport_def
      is_REQ_def split: option.splits prod.splits)

lemma observations_block_state:
  "request_state base e \<Longrightarrow> request_state base (observations_block acc e)"
  by (erule request_state_extend)
    (simp_all add: observations_block_def sendAck_def sendToRenderer_def Let_def
      is_StatusReport_def is_REQ_def split: option.splits prod.splits)

lemma end_block_state: "request_state base e \<Longrightarrow> request_state base (end_block e)"
  by (erule request_state_extend)
    (simp_all add: end_block_def sendAck_def is_REQ_def split: option.splits prod.splits)

lemma escape_block_state: "request_state base e \<Longrightarrow> request_state base (escape_block e)"
  by (erule request_state_extend)
    (simp_all add: escape_block_def sendToRenderer_def is_StatusReport_def)

lemma status_block_written:
  "written (status_block pint e) = written e @
     (case take_message ''</DST.R01>'' (buffer e) of
        None \<Rightarrow> []
      | Some mr \<Rightarrow>
          if sentRequest e then [ACK True (controlId e + 1)]
          else [ACK True (controlId e + 1), REQ (controlId e + 2)])"
  by (simp add: status_block_def sendAck_def sendToRenderer_def sendRequestObservations_def Let_def
      split: option.splits prod.splits)

lemma status_block_state:
  assumes inv: "request_state base e"
  shows "request_state base (status_block pint e)"
proof (cases "take_message ''</DST.R01>'' (buffer e)")
  case None
  with inv show ?thesis by (simp add: status_block_def)
next
  case (Some mr)
  define t where "t = (case match_digits ''new_observations_qty V='' (fst mr) of
                          None \<Rightarrow> 0 | Some ds \<Rightarrow> pint ds)"
  have t: "renderer (status_block pint e) = renderer e @
      (if sentRequest e then [StatusReport t] else [StatusReport t, Requesting])"
    and s: "sentRequest (status_block pint e)"
    using Some unfolding t_def
    by (cases mr; simp add: status_block_def sendAck_def sendToRenderer_def
          sendRequestObservations_def Let_def)+
  have w: "written (status_block pint e) = written e @
      (if sentRequest e then [ACK True (controlId e + 1)]
       else [ACK True (controlId e + 1), REQ (controlId e + 2)])"
    using Some by (simp add: status_block_written)
  show ?thesis
  proof (cases "sentRequest e")
    case True
    show ?thesis
    proof (rule request_state_append [OF inv])
      show "sentRequest (status_block pint e) = sentRequest e" using s True by simp
      show "written (status_block pint e) = written e @ [ACK True (controlId e + 1)]"
        using w True by simp
      show "filter is_REQ [ACK True (controlId e + 1)] = []" by (simp add: is_REQ_def)
      show "renderer (status_block pint e) = renderer e @ [StatusReport t]" using t True by simp
      show "sentRequest e \<or> filter is_StatusReport [StatusReport t] = []" using True by simp
    qed
  next
    case False
    with inv obtain evs where evs: "renderer e = base @ evs"
      and old: "filter is_StatusReport evs = []" "filter is_REQ (written e) = []"
      unfolding request_state_def by blast
    have "written (status_block pint e) =
        written e @ [ACK True (controlId e + 1), REQ (Suc (controlId e + 1))] @ []"
      using w False by simp
    then have a: "\<exists>pre n post. written (status_block pint e) = pre @ [ACK True n, REQ (Suc n)] @ post
        \<and> filter is_REQ pre = [] \<and> filter is_REQ post = []"
      using old(2) by (intro exI [of _ "written e"] exI [of _ "controlId e + 1"] exI [of _ "[]"]) simp
    have r: "renderer (status_block pint e) = base @ (evs @ [StatusReport t, Requesting])"
      using t False evs by simp
    have b: "\<exists>evs1 t' evs2. evs @ [StatusReport t, Requesting] = evs1 @ [StatusReport t', Requesting] @ evs2
        \<and> filter is_StatusReport evs1 = []"
      using old(1) by (intro exI [of _ evs] exI [of _ t] exI [of _ "[]"]) simp
    show ?thesis
      unfolding request_state_def
      by (rule exI [of _ "evs @ [StatusReport t, Requesting]"]) (use r s a b in simp)
  qed
qed

lemma processMessages_state:
  "request_state base e \<Longrightarrow> request_state base (processMessages pint acc e)"
  unfolding processMessages_def
  by (intro escape_block_state end_block_state observations_block_state status_block_state
      hello_block_state)

lemma on_data_state:
  assumes "request_state base e"
  shows "request_state base (on_data pint acc e chunk)"
proof -
  have "request_state base (e\<lparr>buffer := buffer e @ chunk\<rparr>)"
    using assms by (simp add: request_state_def)
  then show ?thesis unfolding on_data_def by (rule processMessages_state)
qed

lemma foldl_state:
  "request_state base e \<Longrightarrow> request_state base (foldl (on_data pint acc) e chunks)"
  by (induction chunks arbitrary: e) (simp_all add: on_data_state)

lemma session_state:
  "request_state (renderer e @ [DeviceConnected ip]) (session pint acc ip e chunks)"
  unfolding session_def
proof (rule foldl_state)
  show "request_state (renderer e @ [DeviceConnected ip]) (handleConnection ip e)"
    unfolding request_state_def
    by (rule exI [of _ "[]"]) (simp add: handleConnection_def)
qed

lemma ble_processMessages_no_request:
  "filter is_REQ (ble_written (ble_processMessages newId pint pf b)) = filter is_REQ (ble_written b)"
  by (simp add: ble_processMessages_def ble_sendAck_def Let_def is_REQ_def
      split: option.splits prod.splits)

text \<open>
  Claim C9, as the code has it. Take any session of the desktop engine: a connection
  accepted in any state of the engine (after earlier sessions or after none), and any
  chunks. What the renderer is sent in the session starts with \<open>device-connected\<close>, and
  of the events after it and of what is written to the socket one of two things holds.
  Either no status report was processed and no request was written; or exactly one
  request was written, directly after an accepting acknowledgement and carrying the next
  control identifier, and the renderer was told \<open>requesting\<close> directly after the first
  status report of the session. The block that handles a status report writes the
  acknowledgement first and the request after it, and the request only if none was sent
  before in the session. The mobile engine's \<open>processMessages\<close> writes no request at all.
\<close>

theorem request_once_after_ack:
  "renderer (session pint acc ip e chunks) =
     renderer e @ DeviceConnected ip # session_events e (session pint acc ip e chunks)
   \<and> ((filter is_StatusReport (session_events e (session pint acc ip e chunks)) = []
         \<and> filter is_REQ (written (session pint acc ip e chunks)) = [])
       \<or> ((\<exists>pre n post.
             written (session pint acc ip e chunks) = pre @ [ACK True n, REQ (Suc n)] @ post
             \<and> filter is_REQ pre = [] \<and> filter is_REQ post = [])
          \<and> (\<exists>evs1 t evs2.
             session_events e (session pint acc ip e chunks) =
               evs1 @ [StatusReport t, Requesting] @ evs2
             \<and> filter is_StatusReport evs1 = [])))
   \<and> written (status_block pint e') = written e' @
       (case take_message ''</DST.R01>'' (buffer e') of
          None \<Rightarrow> []
        | Some mr \<Rightarrow>
            if sentRequest e' then [ACK True (controlId e' + 1)]
            else [ACK True (controlId e' + 1), REQ (controlId e' + 2)])
   \<and> filter is_REQ (ble_written (ble_processMessages newId pint pf b)) =
       filter is_REQ (ble_written b)"
proof -
  let ?s = "session pint acc ip e chunks"
  from session_state [of e ip pint acc chunks] obtain evs where
    r: "renderer ?s = (renderer e @ [DeviceConnected ip]) @ evs"
    and c: "(\<not> sentRequest ?s \<and> filter is_StatusReport evs = []
              \<and> filter is_REQ (written ?s) = [])
            \<or> (sentRequest ?s
                \<and> (\<exists>pre n post. written ?s = pre @ [ACK True n, REQ (Suc n)] @ post
                      \<and> filter is_REQ pre = [] \<and> filter is_REQ post = [])
                \<and> (\<exists>evs1 t evs2. evs = evs1 @ [StatusReport t, Requesting] @ evs2
                      \<and> filter is_StatusReport evs1 = []))"
    unfolding request_state_def by blast
  have ev: "session_events e ?s = evs"
    unfolding session_events_def r by simp
  have 1: "renderer ?s = renderer e @ DeviceConnected ip # session_events e ?s"
    unfolding ev using r by simp
  have 2: "(filter is_StatusReport (session_events e ?s) = []
         \<and> filter is_REQ (written ?s) = [])
       \<or> ((\<exists>pre n post. written ?s = pre @ [ACK True n, REQ (Suc n)] @ post
             \<and> filter is_REQ pre = [] \<and> filter is_REQ post = [])
          \<and> (\<exists>evs1 t evs2. session_events e ?s = evs1 @ [StatusReport t, Requesting] @ evs2
             \<and> filter is_StatusReport evs1 = []))"
    unfolding ev using c by blast
  show ?thesis
    using 1 2 status_block_written [of pint e'] ble_processMessages_no_request [of newId pint pf b]
    by (intro conjI)
qed

text \<open>
  Claim C9 as stated fails: on a status report the request is written after the
  acknowledgement, not before it. A second session on the same engine starts again at
  control identifier 20000 and does the same.
\<close>

theorem request_after_ack_example:
  "written (session example_parseInt True ''10.0.0.7'' (idle (NoFile :: rat file_state))
       [''<DST.R01></DST.R01>''])
     = [ACK True 20001, REQ 20002]
   \<and> written (session example_parseInt True ''10.0.0.7''
       (session example_parseInt True ''10.0.0.7'' (idle (NoFile :: rat file_state))
          [''<DST.R01></DST.R01>''])
       [''<DST.R01></DST.R01>''])
     = [ACK True 20001, REQ 20002]"
  by (simp add: session_def idle_def handleConnection_def on_data_def processMessages_def
      hello_block_def status_block_def observations_block_def end_block_def escape_block_def
      take_message_def sendAck_def sendToRenderer_def sendRequestObservations_def Let_def)

text \<open>
  Claim C1 on a concrete input. Two complete observation messages arrive in one chunk.
  One pass of \<open>processMessages\<close> takes the first; the second stays in the buffer, its
  end tag included, and is acknowledged and recorded only if more data arrives. The
  mobile engine does the same.
\<close>

theorem second_message_left_in_buffer:
  "rawObservations (session pint True ''10.0.0.7'' (idle NoFile)
       [''<OBS.R01><SVC>a</SVC></OBS.R01><OBS.R01><SVC>b</SVC></OBS.R01>''])
     = [''<OBS.R01><SVC>a</SVC></OBS.R01>'']
   \<and> buffer (session pint True ''10.0.0.7'' (idle NoFile)
       [''<OBS.R01><SVC>a</SVC></OBS.R01><OBS.R01><SVC>b</SVC></OBS.R01>''])
     = ''<OBS.R01><SVC>b</SVC></OBS.R01>''
   \<and> written (session pint True ''10.0.0.7'' (idle NoFile)
       [''<OBS.R01><SVC>a</SVC></OBS.R01><OBS.R01><SVC>b</SVC></OBS.R01>''])
     = [ACK True 20001]
   \<and> dataBuffer (ble_on_data newId pint pf
         \<lparr>dataBuffer = [], ble_controlId = 20000, ble_readings = [], ble_total = 0,
          ble_written = []\<rparr>
         ''<OBS.R01><SVC>a</SVC></OBS.R01><OBS.R01><SVC>b</SVC></OBS.R01>'')
     = ''<OBS.R01><SVC>b</SVC></OBS.R01>''"
  by (simp add: session_def idle_def handleConnection_def on_data_def processMessages_def
      hello_block_def status_block_def observations_block_def end_block_def escape_block_def
      take_message_def sendAck_def sendToRenderer_def sendRequestObservations_def Let_def
      ble_on_data_def ble_processMessages_def ble_sendAck_def)

section \<open>Properties of the statistics\<close>

lemma inRangeCount_le: "inRangeCount rs s \<le> length rs"
  by (simp add: inRangeCount_def)

lemma Math_round_percent:
  assumes "c \<le> n" and "0 < n"
  shows "0 \<le> Math_round (of_nat c / of_nat n * 100)"
    and "Math_round (of_nat c / of_nat n * 100) \<le> 100"
proof -
  let ?q = "(of_nat c / of_nat n * 100 :: rat)"
  have "0 \<le> ?q" by simp
  then have "0 \<le> ?q + 1 / 2" by simp
  then show "0 \<le> Math_round ?q" unfolding Math_round_def by (simp only: zero_le_floor of_int_0)
  have "(of_nat c :: rat) \<le> of_nat n" using assms(1) by simp
  then have "(of_nat c / of_nat n :: rat) \<le> 1" using assms(2) by (simp add: divide_le_eq_1)
  then have "?q \<le> 1 * 100" by (intro mult_right_mono) simp_all
  then have "?q \<le> 100" by (simp only: mult_1)
  then have "?q + 1 / 2 < of_int 101" by simp
  then have "\<lfloor>?q + 1 / 2\<rfloor> < 101" by (simp only: floor_less_iff)
  then show "Math_round ?q \<le> 100" unfolding Math_round_def by simp
qed

lemma Math_round_of_int: "Math_round (of_int k) = k"
  unfolding Math_round_def by (rule floor_unique) simp_all

lemma Math_round_numeral: "Math_round (numeral k) = numeral k"
  using Math_round_of_int [of "numeral k"] by simp

lemma Math_round_0: "Math_round 0 = 0"
  using Math_round_of_int [of 0] by simp

lemma ttr_bounds: "0 \<le> ttr rs s \<and> ttr rs s \<le> 100"
  using Math_round_percent [OF inRangeCount_le, of rs s] by (simp add: ttr_def)

lemma inRangePercent_ttr: "inRangePercent rs s = ttr rs s"
  by (simp add: inRangePercent_def ttr_def Let_def)

text \<open>
  Claim C7, as the code has it. The result of the estimator is always a number: for an
  empty list it is the number 0 (the fallback of the conditional expression), and for
  every list it lies between 0 and 100. There is no result that stands for
  "unavailable". This holds of the report and of the dashboard.
\<close>

theorem ttr_always_a_number:
  "ttr [] s = 0 \<and> inRangePercent [] s = 0
   \<and> 0 \<le> ttr rs s \<and> ttr rs s \<le> 100
   \<and> 0 \<le> inRangePercent rs s \<and> inRangePercent rs s \<le> 100"
  using ttr_bounds [of rs s] by (simp add: inRangePercent_ttr) (simp add: ttr_def)

text \<open>
  Claim C7 as stated fails: with no reading the metric is reported as the number 0, and
  with one reading inside the default range as the number 100.
\<close>

theorem ttr_few_readings_example:
  "ttr ([] :: rat reading list) DEFAULT_SETTINGS = 0
   \<and> inRangePercent ([] :: rat reading list) DEFAULT_SETTINGS = 0
   \<and> ttr [\<lparr>timestamp = ''2024-01-02T10:00:00'', inr = 5 / 2, pt_seconds = 30,
             status = Some ''NRM''\<rparr>] DEFAULT_SETTINGS = 100
   \<and> inRangePercent [\<lparr>timestamp = ''2024-01-02T10:00:00'', inr = 5 / 2, pt_seconds = 30,
             status = Some ''NRM''\<rparr>] DEFAULT_SETTINGS = 100"
  by (simp add: ttr_def inRangePercent_def inRangeCount_def DEFAULT_SETTINGS_def Let_def
      Math_round_numeral Math_round_0)

text \<open>
  Claim C2 on a concrete input. Two readings one hour apart, 2.0 and 5.0, target range
  \<open>[2.0, 3.0]\<close>. The interpolated value is in range during the first third of the hour, so
  the Rosendaal value is 100/3; the program reports 50, the share of readings that are in
  range.
\<close>

theorem ttr_counts_readings_example:
  "ttr [\<lparr>timestamp = ''2024-01-02T10:00:00'', inr = 2, pt_seconds = 24, status = Some ''NRM''\<rparr>,
        \<lparr>timestamp = ''2024-01-02T11:00:00'', inr = 5, pt_seconds = 60, status = Some ''HI''\<rparr>]
       DEFAULT_SETTINGS = 50
   \<and> inRangePercent
       [\<lparr>timestamp = ''2024-01-02T10:00:00'', inr = 2, pt_seconds = 24, status = Some ''NRM''\<rparr>,
        \<lparr>timestamp = ''2024-01-02T11:00:00'', inr = 5, pt_seconds = 60, status = Some ''HI''\<rparr>]
       DEFAULT_SETTINGS = 50
   \<and> rosendaal_ttr 2 3 [(0, 2), (1, 5)] = Some (100 / 3)"
  by (simp add: ttr_def inRangePercent_def inRangeCount_def DEFAULT_SETTINGS_def
      Let_def rosendaal_ttr_def rosendaal_in_range_time_def Math_round_numeral Math_round_0)

section \<open>Properties of persistence and import\<close>

text \<open>
  Claim C8, as the code has it. When the write of \<open>finalizeTransfer\<close> fails, whatever
  the failed write leaves of the data file, the exception is caught in \<open>saveData\<close> and
  logged with \<open>console.error\<close>, after whatever \<open>loadData\<close> logged; the renderer is
  sent exactly what it is sent when the write succeeds, that is the
  \<open>transfer-complete\<close> event with the count of new readings, the total and the merged
  readings, and no error event; nothing is written to the socket and no exception leaves
  the handler that would not leave it with a successful write. (When the stored
  \<open>readings\<close> is not an array the merge throws before the write, in both cases.)
\<close>

theorem finalize_write_fails:
  "renderer (finalizeTransfer collate pint pf (WriteFails left) now e)
     = renderer (finalizeTransfer collate pint pf WriteOk now e)
   \<and> renderer (finalizeTransfer collate pint pf (WriteFails left) now e)
     = renderer e @
        (if merge_throws e then []
         else [TransferComplete
                 (length (uniqueNew (stored_readings e)
                    (concat (map (parseObservationsXml pint pf) (rawObservations e)))))
                 (length (allReadings collate (stored_readings e)
                    (concat (map (parseObservationsXml pint pf) (rawObservations e)))))
                 (allReadings collate (stored_readings e)
                    (concat (map (parseObservationsXml pint pf) (rawObservations e))))])
   \<and> errors_logged (finalizeTransfer collate pint pf (WriteFails left) now e)
     = errors_logged (finalizeTransfer collate pint pf WriteOk now e)
         @ (if merge_throws e then [] else [''Error saving data:''])
   \<and> uncaught (finalizeTransfer collate pint pf (WriteFails left) now e)
     = uncaught (finalizeTransfer collate pint pf WriteOk now e)
   \<and> written (finalizeTransfer collate pint pf (WriteFails left) now e) = written e
   \<and> data_file (finalizeTransfer collate pint pf (WriteFails left) now e)
     = (if merge_throws e then data_file e else left)"
  by (simp add: finalizeTransfer_def saveData_def sendToRenderer_def loadData_def
      merge_throws_def stored_readings_def Let_def
      split: file_state.splits option.splits)

text \<open>
  Claim C8 as stated fails: a session received one valid observation and the write
  fails, leaving a file that cannot be read. The renderer is told that the transfer is
  complete, with one new reading, and is sent no error; the failure is only logged; the
  store holds no reading afterwards.
\<close>

theorem write_failure_example:
  "renderer (finalizeTransfer example_collate example_parseInt example_parseFloat
       (WriteFails Unreadable) ''2024-01-05T00:00:00.000Z''
       ((idle NoFile)\<lparr>rawObservations := [example_batch]\<rparr>))
     = [TransferComplete 1 1
          [\<lparr>timestamp = ''T1'', inr = 5 / 2, pt_seconds = 30, status = None,
            sequence = Some 1\<rparr>]]
   \<and> errors_logged (finalizeTransfer example_collate example_parseInt example_parseFloat
       (WriteFails Unreadable) ''2024-01-05T00:00:00.000Z''
       ((idle NoFile)\<lparr>rawObservations := [example_batch]\<rparr>))
     = [''Error saving data:'']
   \<and> stored_readings (finalizeTransfer example_collate example_parseInt example_parseFloat
       (WriteFails Unreadable) ''2024-01-05T00:00:00.000Z''
       ((idle NoFile)\<lparr>rawObservations := [example_batch]\<rparr>))
     = []"
  by (simp add: finalizeTransfer_def parse_example idle_def loadData_def saveData_def
      sendToRenderer_def existing_of_def no_data_def stored_readings_def
      allReadings_def uniqueNew_def renumber_def Let_def one_enat_def)

text \<open>
  Claim C10, as the code has it. When the imported file parses to a content whose
  \<open>readings\<close> is an array, the import reports success with the number of imported
  readings, whether the write succeeds or fails. When the write succeeds, the data file
  holds exactly the imported content, the stored readings are the imported ones, and a
  reading stored before whose timestamp is not in the imported file is stored no longer.
  When the write fails, the data file is what the failed write leaves, the failure is
  logged, and the answer is the same.
\<close>

theorem import_replaces_store:
  assumes "readings d = Readings rs"
  shows "fst (import_data outcome (Some (Inr d)) e) = ImportSuccess (length rs)
    \<and> data_file (snd (import_data WriteOk (Some (Inr d)) e)) = FileContent d
    \<and> stored_readings (snd (import_data WriteOk (Some (Inr d)) e)) = rs
    \<and> (\<forall>r \<in> set (stored_readings e). timestamp r \<notin> timestamp ` set rs \<longrightarrow>
          r \<notin> set (stored_readings (snd (import_data WriteOk (Some (Inr d)) e))))
    \<and> data_file (snd (import_data (WriteFails left) (Some (Inr d)) e)) = left
    \<and> errors_logged (snd (import_data (WriteFails left) (Some (Inr d)) e))
        = errors_logged e @ [''Error saving data:'']"
  using assms
  by (auto simp: import_data_def saveData_def stored_readings_def loadData_def existing_of_def)

text \<open>
  The theorem on an example: the store holds a reading of time \<open>T1\<close>, the imported
  file one of time \<open>T2\<close>. After the import the data file is the imported content and
  the reading of time \<open>T1\<close> is gone.
\<close>

theorem import_replaces_store_witness:
  "readings \<lparr>device = None, lastSync = None, totalReadings = None,
             readings = Readings [\<lparr>timestamp = ''T2'', inr = 3 :: rat, pt_seconds = 36,
                                    status = None, sequence = Some 1\<rparr>]\<rparr>
     = Readings [\<lparr>timestamp = ''T2'', inr = 3, pt_seconds = 36, status = None,
                  sequence = Some 1\<rparr>]
   \<and> data_file (snd (import_data WriteOk
        (Some (Inr \<lparr>device = None, lastSync = None, totalReadings = None,
             readings = Readings [\<lparr>timestamp = ''T2'', inr = 3 :: rat, pt_seconds = 36,
                                    status = None, sequence = Some 1\<rparr>]\<rparr>))
        (idle (FileContent \<lparr>device = None, lastSync = None, totalReadings = Some 1,
             readings = Readings [\<lparr>timestamp = ''T1'', inr = 2, pt_seconds = 24,
                                    status = None, sequence = Some 1\<rparr>]\<rparr>))))
     = FileContent \<lparr>device = None, lastSync = None, totalReadings = None,
             readings = Readings [\<lparr>timestamp = ''T2'', inr = 3, pt_seconds = 36,
                                    status = None, sequence = Some 1\<rparr>]\<rparr>
   \<and> \<lparr>timestamp = ''T1'', inr = 2 :: rat, pt_seconds = 24, status = None, sequence = Some 1\<rparr>
       \<notin> set (stored_readings (snd (import_data WriteOk
        (Some (Inr \<lparr>device = None, lastSync = None, totalReadings = None,
             readings = Readings [\<lparr>timestamp = ''T2'', inr = 3, pt_seconds = 36,
                                    status = None, sequence = Some 1\<rparr>]\<rparr>))
        (idle (FileContent \<lparr>device = None, lastSync = None, totalReadings = Some 1,
             readings = Readings [\<lparr>timestamp = ''T1'', inr = 2, pt_seconds = 24,
                                    status = None, sequence = Some 1\<rparr>]\<rparr>)))))"
proof -
  let ?r1 = "\<lparr>timestamp = ''T1'', inr = 2 :: rat, pt_seconds = 24, status = None,
              sequence = Some 1\<rparr>"
  let ?r2 = "\<lparr>timestamp = ''T2'', inr = 3 :: rat, pt_seconds = 36, status = None,
              sequence = Some 1\<rparr>"
  let ?d = "\<lparr>device = None, lastSync = None, totalReadings = None, readings = Readings [?r2]\<rparr>"
  let ?e = "idle (FileContent \<lparr>device = None, lastSync = None, totalReadings = Some 1,
                        readings = Readings [?r1]\<rparr>)"
  have h: "readings ?d = Readings [?r2]" by simp
  have old: "?r1 \<in> set (stored_readings ?e)"
    by (simp add: stored_readings_def loadData_def idle_def existing_of_def)
  have new: "timestamp ?r1 \<notin> timestamp ` set [?r2]" by simp
  show ?thesis
    using import_replaces_store [OF h, of WriteOk ?e] old new h by blast
qed

text \<open>
  Claim C10 as stated fails: the store holds a reading of time \<open>T1\<close>, the imported
  file one of time \<open>T2\<close>, and the write fails without touching the file (a file that
  may not be written). The import answers success with one reading; the data file is
  still the old content, the reading of time \<open>T1\<close> is still stored and the one of time
  \<open>T2\<close> is not.
\<close>

theorem import_write_fails_example:
  "fst (import_data
        (WriteFails (FileContent \<lparr>device = None, lastSync = None, totalReadings = Some 1,
             readings = Readings [\<lparr>timestamp = ''T1'', inr = 2 :: rat, pt_seconds = 24,
                                    status = None, sequence = Some 1\<rparr>]\<rparr>))
        (Some (Inr \<lparr>device = None, lastSync = None, totalReadings = None,
             readings = Readings [\<lparr>timestamp = ''T2'', inr = 3, pt_seconds = 36,
                                    status = None, sequence = Some 1\<rparr>]\<rparr>))
        (idle (FileContent \<lparr>device = None, lastSync = None, totalReadings = Some 1,
             readings = Readings [\<lparr>timestamp = ''T1'', inr = 2, pt_seconds = 24,
                                    status = None, sequence = Some 1\<rparr>]\<rparr>)))
     = ImportSuccess 1
   \<and> stored_readings (snd (import_data
        (WriteFails (FileContent \<lparr>device = None, lastSync = None, totalReadings = Some 1,
             readings = Readings [\<lparr>timestamp = ''T1'', inr = 2 :: rat, pt_seconds = 24,
                                    status = None, sequence = Some 1\<rparr>]\<rparr>))
        (Some (Inr \<lparr>device = None, lastSync = None, totalReadings = None,
             readings = Readings [\<lparr>timestamp = ''T2'', inr = 3, pt_seconds = 36,
                                    status = None, sequence = Some 1\<rparr>]\<rparr>))
        (idle (FileContent \<lparr>device = None, lastSync = None, totalReadings = Some 1,
             readings = Readings [\<lparr>timestamp = ''T1'', inr = 2, pt_seconds = 24,
                                    status = None, sequence = Some 1\<rparr>]\<rparr>))))
     = [\<lparr>timestamp = ''T1'', inr = 2, pt_seconds = 24, status = None, sequence = Some 1\<rparr>]"
  by (simp add: import_data_def saveData_def stored_readings_def loadData_def idle_def
      existing_of_def)

end
